theory Spec2Isabelle
  imports Main "HOL-Library.Product_Lexorder"
begin

section \<open>Shared value types\<close>

text \<open>
  An ObjectId is modelled by the string its \<^verbatim>\<open>toString()\<close> yields: the methods
  compare references only through \<^verbatim>\<open>a.toString() === b.toString()\<close>. Every
  embedded record carries its user reference, as every record that \<open>borrowBook\<close>
  and \<open>toggleLike\<close> push does. A Date is its time value, the milliseconds since the
  epoch. Copy counters are JavaScript numbers that hold whole numbers; they are
  modelled as unbounded integers.
\<close>

type_synonym objectId = string
type_synonym date = int

text \<open>
  The values thrown: \<open>Error\<close> by \<^verbatim>\<open>throw new Error(message)\<close>, \<open>SyntaxError\<close> by
  \<^verbatim>\<open>new RegExp(pattern, flags)\<close> on a pattern that is not a regular expression.
\<close>

datatype error = Error string | SyntaxError string

text \<open>
  \<^verbatim>\<open>d.setDate(d.getDate() + n)\<close> moves a date by \<open>n\<close> calendar days. On a clock
  without offset changes (UTC) that is \<open>n\<close> times 86400000 milliseconds.
\<close>

definition addDays :: "date \<Rightarrow> int \<Rightarrow> date" where
  "addDays d n = d + n * 86400000"

section \<open>The book model\<close>

datatype availability = Available | Borrowed | Reserved | Maintenance

datatype borrowStatus = LoanBorrowed | LoanReturned | LoanOverdue

text \<open>
  One entry of \<^verbatim>\<open>borrowHistory\<close>. The field \<^verbatim>\<open>user\<close> is called \<open>br_user\<close>
  here, since the annotation has a field \<^verbatim>\<open>user\<close> of its own. \<^verbatim>\<open>borrowDate\<close> has
  the schema default \<^verbatim>\<open>Date.now\<close>; \<^verbatim>\<open>returnDate\<close> and \<^verbatim>\<open>dueDate\<close> have no
  default and may be absent.
\<close>

record borrowRecord =
  br_user :: objectId
  borrowDate :: date
  returnDate :: "date option"
  dueDate :: "date option"
  status :: borrowStatus

text \<open>
  The inventory part of the book schema. The catalogue fields that no method reads
  or writes (isbn, description, genre, rating, reviews and so on) live in the
  extension part of the record: every function below is stated on
  \<open>'a book_scheme\<close> and leaves that part alone.
\<close>

record book =
  title :: string
  author :: string
  availability :: availability
  totalCopies :: int
  availableCopies :: int
  borrowHistory :: "borrowRecord list"

text \<open>\<^verbatim>\<open>this.availability === 'available' && this.availableCopies > 0\<close>\<close>

definition isAvailable :: "'a book_scheme \<Rightarrow> bool" where
  "isAvailable b \<longleftrightarrow> availability b = Available \<and> availableCopies b > 0"

text \<open>
  A method either throws or returns, and in both cases leaves a document behind:
  the result is the pair of the outcome (\<open>Inl\<close> the thrown error) and the document
  after the call. Writing the document to the database (\<^verbatim>\<open>this.save()\<close>) is the
  storage layer's work and is not part of the book model.

  \<open>borrowBook\<close> reads the clock twice: \<open>now\<close> is the value of \<^verbatim>\<open>new Date()\<close> from
  which the due date is computed, \<open>stamp\<close> is the value of \<^verbatim>\<open>Date.now\<close> that the
  schema default gives to \<^verbatim>\<open>borrowDate\<close> when the record is pushed.
\<close>

definition borrowBook ::
  "date \<Rightarrow> date \<Rightarrow> objectId \<Rightarrow> 'a book_scheme \<Rightarrow> (error + unit) \<times> 'a book_scheme" where
  "borrowBook now stamp userId b =
     (if \<not> isAvailable b then (Inl (Error ''Book is not available for borrowing''), b)
      else
        let b1 = b\<lparr>availableCopies := availableCopies b - 1\<rparr>;
            b2 = (if availableCopies b1 = 0 then b1\<lparr>availability := Borrowed\<rparr> else b1);
            due = addDays now 14;
            b3 = b2\<lparr>borrowHistory := borrowHistory b2 @
                   [\<lparr>br_user = userId, borrowDate = stamp, returnDate = None,
                     dueDate = Some due, status = LoanBorrowed\<rparr>]\<rparr>
        in (Inr (), b3))"

text \<open>
  \<^verbatim>\<open>Array.prototype.find\<close> hands back a reference to the first element that
  satisfies the predicate, and \<open>returnBook\<close> writes through that reference.
  \<open>updateFirst P f xs\<close> is the array after such a write: the first element
  satisfying \<open>P\<close> is replaced by its image under \<open>f\<close>, everything else stays.
\<close>

fun updateFirst :: "('a \<Rightarrow> bool) \<Rightarrow> ('a \<Rightarrow> 'a) \<Rightarrow> 'a list \<Rightarrow> 'a list" where
  "updateFirst P f [] = []"
| "updateFirst P f (x # xs) = (if P x then f x # xs else x # updateFirst P f xs)"

definition activeLoanOf :: "objectId \<Rightarrow> borrowRecord \<Rightarrow> bool" where
  "activeLoanOf userId r \<longleftrightarrow> br_user r = userId \<and> status r = LoanBorrowed"

definition closeLoan :: "date \<Rightarrow> borrowRecord \<Rightarrow> borrowRecord" where
  "closeLoan now r = (r\<lparr>returnDate := Some now\<rparr>)\<lparr>status := LoanReturned\<rparr>"

definition returnBook ::
  "date \<Rightarrow> objectId \<Rightarrow> 'a book_scheme \<Rightarrow> (error + unit) \<times> 'a book_scheme" where
  "returnBook now userId b =
     (case List.find (activeLoanOf userId) (borrowHistory b) of
        None \<Rightarrow> (Inl (Error ''No active borrow record found for this user''), b)
      | Some borrowRecord \<Rightarrow>
          let b1 = b\<lparr>borrowHistory :=
                     updateFirst (activeLoanOf userId) (closeLoan now) (borrowHistory b)\<rparr>;
              b2 = b1\<lparr>availableCopies := availableCopies b1 + 1\<rparr>;
              b3 = (if availableCopies b2 > 0 then b2\<lparr>availability := Available\<rparr> else b2)
          in (Inr (), b3))"

text \<open>A method call failed when its outcome is a thrown error.\<close>

definition threw :: "(error + unit) \<times> 'b \<Rightarrow> bool" where
  "threw r \<longleftrightarrow> (case fst r of Inl _ \<Rightarrow> True | Inr _ \<Rightarrow> False)"

text \<open>A concrete shelf used in the examples below.\<close>

definition loan_u1 :: borrowRecord where
  "loan_u1 = \<lparr>br_user = ''u1'', borrowDate = 1000, returnDate = None,
              dueDate = Some (addDays 1000 14), status = LoanBorrowed\<rparr>"

definition shelf_book :: "int \<Rightarrow> int \<Rightarrow> availability \<Rightarrow> borrowRecord list \<Rightarrow> book" where
  "shelf_book tc ac av hist =
     \<lparr>title = ''Dune'', author = ''Herbert'', availability = av, totalCopies = tc,
      availableCopies = ac, borrowHistory = hist\<rparr>"

section \<open>The annotation model\<close>

datatype annotationType = Highlight | Note | Bookmark | Comment

text \<open>
  The embedded sub-documents. Their \<^verbatim>\<open>user\<close> fields are called \<open>like_user\<close> and
  \<open>reply_user\<close>; \<^verbatim>\<open>likedAt\<close> and the reply's \<^verbatim>\<open>createdAt\<close> have the schema
  default \<^verbatim>\<open>Date.now\<close>.
\<close>

record like =
  like_user :: objectId
  likedAt :: date

record reply =
  reply_user :: objectId
  reply_content :: string
  reply_createdAt :: date

record content =
  selectedText :: "string option"
  userNote :: "string option"

record coordinates =
  coord_x :: "int option"
  coord_y :: "int option"
  coord_width :: "int option"
  coord_height :: "int option"

record position =
  page :: int
  startOffset :: "int option"
  endOffset :: "int option"
  coordinates :: coordinates

text \<open>
  The annotation document: the schema's fields, the \<^verbatim>\<open>_id\<close> under which the
  collection stores it (\<open>doc_id\<close>), and \<^verbatim>\<open>createdAt\<close>, which the schema option
  \<^verbatim>\<open>timestamps\<close> adds and the queries sort by. String setters (trim, lowercase)
  and validators are applied by the storage layer before a document is written;
  the fields hold the values after that.
\<close>

record annotation =
  doc_id :: objectId
  user :: objectId
  book :: objectId
  type :: annotationType
  content :: content
  position :: position
  color :: string
  isPrivate :: bool
  tags :: "string list"
  replies :: "reply list"
  likes :: "like list"
  isDeleted :: bool
  lastModified :: date
  createdAt :: date

text \<open>
  What a caller passes to create an annotation. A field with a schema default may
  be left out (\<open>None\<close>, or the empty list for the arrays).
\<close>

record annotationInput =
  in_user :: objectId
  in_book :: objectId
  in_type :: annotationType
  in_content :: content
  in_position :: position
  in_color :: "string option"
  in_isPrivate :: "bool option"
  in_tags :: "string list"
  in_replies :: "reply list"
  in_likes :: "like list"
  in_isDeleted :: "bool option"
  in_lastModified :: "date option"

text \<open>
  Creating a document applies the schema defaults: \<^verbatim>\<open>color\<close> \<^verbatim>\<open>'#ffff00'\<close>,
  \<^verbatim>\<open>isPrivate\<close> true, \<^verbatim>\<open>isDeleted\<close> false, \<^verbatim>\<open>lastModified\<close> \<^verbatim>\<open>Date.now\<close>
  (\<open>stamp\<close>). \<open>newId\<close> is the fresh \<^verbatim>\<open>_id\<close> and \<open>created\<close> the time of the
  first save, which becomes \<^verbatim>\<open>createdAt\<close>.
\<close>

definition newAnnotation :: "objectId \<Rightarrow> date \<Rightarrow> date \<Rightarrow> annotationInput \<Rightarrow> annotation" where
  "newAnnotation newId stamp created inp =
     \<lparr>doc_id = newId, user = in_user inp, book = in_book inp, type = in_type inp,
      content = in_content inp, position = in_position inp,
      color = (case in_color inp of None \<Rightarrow> ''#ffff00'' | Some c \<Rightarrow> c),
      isPrivate = (case in_isPrivate inp of None \<Rightarrow> True | Some p \<Rightarrow> p),
      tags = in_tags inp, replies = in_replies inp, likes = in_likes inp,
      isDeleted = (case in_isDeleted inp of None \<Rightarrow> False | Some d \<Rightarrow> d),
      lastModified = (case in_lastModified inp of None \<Rightarrow> stamp | Some t \<Rightarrow> t),
      createdAt = created\<rparr>"

text \<open>\<^verbatim>\<open>this.likes.some(like => like.user.toString() === userId.toString())\<close>\<close>

definition isLikedBy :: "annotation \<Rightarrow> objectId \<Rightarrow> bool" where
  "isLikedBy a userId = list_ex (\<lambda>l. like_user l = userId) (likes a)"

text \<open>
  \<^verbatim>\<open>Array.prototype.findIndex\<close>: the index of the first element satisfying the
  predicate, \<open>- 1\<close> when there is none. \<open>findIndexFrom i\<close> is the scan standing at
  index \<open>i\<close>.
\<close>

fun findIndexFrom :: "int \<Rightarrow> ('a \<Rightarrow> bool) \<Rightarrow> 'a list \<Rightarrow> int" where
  "findIndexFrom i P [] = - 1"
| "findIndexFrom i P (x # xs) = (if P x then i else findIndexFrom (i + 1) P xs)"

definition findIndex :: "('a \<Rightarrow> bool) \<Rightarrow> 'a list \<Rightarrow> int" where
  "findIndex P xs = findIndexFrom 0 P xs"

text \<open>
  \<^verbatim>\<open>xs.splice(start, deleteCount)\<close> with no inserted items (\<open>splice_js\<close>, as
  the list library has a \<open>splice\<close> of its own): a negative \<open>start\<close> counts from
  the end, and both ends are clamped to the array.
\<close>

definition splice_js :: "'a list \<Rightarrow> int \<Rightarrow> nat \<Rightarrow> 'a list" where
  "splice_js xs start deleteCount =
     (let n = int (length xs);
          s = (if start < 0 then max (n + start) 0 else min start n)
      in take (nat s) xs @ drop (nat s + deleteCount) xs)"

datatype action = Liked | Unliked

record toggleResult =
  action :: action
  likeCount :: nat

text \<open>
  \<open>toggleLike\<close> returns its result object and leaves the mutated document; it does
  not save. \<open>stamp\<close> is the \<^verbatim>\<open>Date.now\<close> that the schema default gives to
  \<^verbatim>\<open>likedAt\<close> of a pushed entry.
\<close>

definition toggleLike :: "date \<Rightarrow> objectId \<Rightarrow> annotation \<Rightarrow> toggleResult \<times> annotation" where
  "toggleLike stamp userId a =
     (let existingLikeIndex = findIndex (\<lambda>l. like_user l = userId) (likes a)
      in if existingLikeIndex > - 1 then
           let a' = a\<lparr>likes := splice_js (likes a) existingLikeIndex 1\<rparr>
           in (\<lparr>action = Unliked, likeCount = length (likes a')\<rparr>, a')
         else
           let a' = a\<lparr>likes := likes a @ [\<lparr>like_user = userId, likedAt = stamp\<rparr>]\<rparr>
           in (\<lparr>action = Liked, likeCount = length (likes a')\<rparr>, a'))"

subsection \<open>Saving and the collection\<close>

text \<open>
  The pre-save hook reads two values that the document library keeps for each
  document, \<^verbatim>\<open>this.isModified()\<close> and \<^verbatim>\<open>this.isNew\<close>; they are parameters here.
\<close>

definition preSave :: "date \<Rightarrow> bool \<Rightarrow> bool \<Rightarrow> annotation \<Rightarrow> annotation" where
  "preSave now modified new a = (if modified \<and> \<not> new then a\<lparr>lastModified := now\<rparr> else a)"

text \<open>
  The collection is the sequence of stored documents. Writing a document puts it
  in the place of the stored document with its \<^verbatim>\<open>_id\<close>, or adds it when there is
  none. \<open>save\<close> runs the hook and writes; it yields the document and the
  collection after the write.
\<close>

definition persist :: "annotation \<Rightarrow> annotation list \<Rightarrow> annotation list" where
  "persist a coll =
     (if doc_id a \<in> set (map doc_id coll)
      then map (\<lambda>d. if doc_id d = doc_id a then a else d) coll
      else coll @ [a])"

definition save ::
  "date \<Rightarrow> bool \<Rightarrow> bool \<Rightarrow> annotation \<Rightarrow> annotation list \<Rightarrow> annotation \<times> annotation list" where
  "save now modified new a coll = (let a' = preSave now modified new a in (a', persist a' coll))"

definition softDelete ::
  "date \<Rightarrow> bool \<Rightarrow> bool \<Rightarrow> annotation \<Rightarrow> annotation list \<Rightarrow> annotation \<times> annotation list" where
  "softDelete now modified new a coll = save now modified new (a\<lparr>isDeleted := True\<rparr>) coll"

subsection \<open>Queries\<close>

text \<open>
  \<^verbatim>\<open>find(filter)\<close> keeps the documents that satisfy every condition of the filter;
  \<^verbatim>\<open>sort({'position.page': 1, createdAt: 1})\<close> orders them by page, then by
  creation time; \<^verbatim>\<open>populate\<close> attaches to each result the projection of the
  referenced document, looked up in \<open>users\<close> or \<open>books\<close> (\<open>None\<close> when the
  reference does not resolve).
\<close>

definition byPageThenCreated :: "annotation list \<Rightarrow> annotation list" where
  "byPageThenCreated xs = sort_key (\<lambda>a. (page (position a), createdAt a)) xs"

definition findUserAnnotations :: "objectId \<Rightarrow> objectId \<Rightarrow> annotation list \<Rightarrow> annotation list" where
  "findUserAnnotations userId bookId coll =
     byPageThenCreated
       (filter (\<lambda>a. user a = userId \<and> book a = bookId \<and> isDeleted a = False) coll)"

definition findPublicAnnotations ::
  "(objectId \<Rightarrow> 'u option) \<Rightarrow> objectId \<Rightarrow> annotation list \<Rightarrow> (annotation \<times> 'u option) list" where
  "findPublicAnnotations users bookId coll =
     map (\<lambda>a. (a, users (user a)))
       (byPageThenCreated
          (filter (\<lambda>a. book a = bookId \<and> isPrivate a = False \<and> isDeleted a = False) coll))"

definition findByType ::
  "objectId \<Rightarrow> objectId \<Rightarrow> annotationType \<Rightarrow> annotation list \<Rightarrow> annotation list" where
  "findByType userId bookId ty coll =
     byPageThenCreated
       (filter (\<lambda>a. user a = userId \<and> book a = bookId \<and> type a = ty \<and> isDeleted a = False)
          coll)"

text \<open>
  The regular expression engine is a parameter: \<open>rx q\<close> is \<open>None\<close> when \<open>q\<close> is
  not a regular expression, and otherwise the test whether a text matches \<open>q\<close>
  without regard to case. \<open>searchAnnotations\<close> builds \<^verbatim>\<open>new RegExp(searchQuery, 'i')\<close>
  before it queries, so it throws on a query that is not a regular expression. An
  absent text field matches nothing; the tags match when one of them does.
\<close>

definition matchesSearch :: "(string \<Rightarrow> bool) \<Rightarrow> annotation \<Rightarrow> bool" where
  "matchesSearch m a \<longleftrightarrow>
     (case selectedText (content a) of None \<Rightarrow> False | Some t \<Rightarrow> m t) \<or>
     (case userNote (content a) of None \<Rightarrow> False | Some t \<Rightarrow> m t) \<or>
     list_ex m (tags a)"

definition searchAnnotations ::
  "(string \<Rightarrow> (string \<Rightarrow> bool) option) \<Rightarrow> (objectId \<Rightarrow> 'b option) \<Rightarrow> objectId \<Rightarrow> string \<Rightarrow>
   annotation list \<Rightarrow> error + (annotation \<times> 'b option) list" where
  "searchAnnotations rx books userId searchQuery coll =
     (case rx searchQuery of
        None \<Rightarrow> Inl (SyntaxError ''Invalid regular expression'')
      | Some m \<Rightarrow>
          Inr (map (\<lambda>a. (a, books (book a)))
                 (sort_key (\<lambda>a. - createdAt a)
                    (filter (\<lambda>a. user a = userId \<and> isDeleted a = False \<and> matchesSearch m a)
                       coll))))"

text \<open>Concrete annotations used in the examples below.\<close>

definition note_input :: annotationInput where
  "note_input =
     \<lparr>in_user = ''u1'', in_book = ''b1'', in_type = Note,
      in_content = \<lparr>selectedText = Some ''spice'', userNote = None\<rparr>,
      in_position = \<lparr>page = 3, startOffset = None, endOffset = None,
                     coordinates = \<lparr>coord_x = None, coord_y = None,
                                    coord_width = None, coord_height = None\<rparr>\<rparr>,
      in_color = None, in_isPrivate = None, in_tags = [], in_replies = [],
      in_likes = [], in_isDeleted = None, in_lastModified = None\<rparr>"

definition note_with_likes :: "objectId \<Rightarrow> like list \<Rightarrow> annotation" where
  "note_with_likes i ls = (newAnnotation i 100 100 note_input)\<lparr>likes := ls\<rparr>"

section \<open>Facts about the book methods\<close>

lemma find_activeLoan_None:
  "List.find P xs = None \<longleftrightarrow> (\<forall>x \<in> set xs. \<not> P x)"
  by (induction xs) auto

lemma updateFirst_length: "length (updateFirst P f xs) = length xs"
  by (induction xs) auto

lemma updateFirst_index:
  "\<exists>x \<in> set xs. P x \<Longrightarrow>
   \<exists>i < length xs. P (xs ! i) \<and> (\<forall>j < i. \<not> P (xs ! j)) \<and>
     updateFirst P f xs = xs[i := f (xs ! i)]"
proof (induction xs)
  case Nil
  then show ?case by simp
next
  case (Cons x xs)
  show ?case
  proof (cases "P x")
    case True
    then have "P ((x # xs) ! 0) \<and> (\<forall>j < 0. \<not> P ((x # xs) ! j)) \<and>
        updateFirst P f (x # xs) = (x # xs)[0 := f ((x # xs) ! 0)]"
      by simp
    then show ?thesis by (intro exI [of _ 0]) simp
  next
    case False
    with Cons.prems have "\<exists>y \<in> set xs. P y" by auto
    from Cons.IH [OF this] obtain i where i: "i < length xs" "P (xs ! i)"
      "\<forall>j < i. \<not> P (xs ! j)" "updateFirst P f xs = xs[i := f (xs ! i)]"
      by blast
    have "\<forall>j < Suc i. \<not> P ((x # xs) ! j)"
    proof (intro allI impI)
      fix j assume "j < Suc i"
      then show "\<not> P ((x # xs) ! j)"
        using False i(3) by (cases j) auto
    qed
    with i False have "Suc i < length (x # xs) \<and> P ((x # xs) ! Suc i) \<and>
        (\<forall>j < Suc i. \<not> P ((x # xs) ! j)) \<and>
        updateFirst P f (x # xs) = (x # xs)[Suc i := f ((x # xs) ! Suc i)]"
      by simp
    then show ?thesis by blast
  qed
qed

lemma returnBook_fail:
  "\<forall>r \<in> set (borrowHistory b). \<not> activeLoanOf userId r \<Longrightarrow>
   returnBook now userId b = (Inl (Error ''No active borrow record found for this user''), b)"
  by (simp add: returnBook_def find_activeLoan_None [THEN iffD2])

lemma returnBook_ok:
  "\<exists>r \<in> set (borrowHistory b). activeLoanOf userId r \<Longrightarrow>
   returnBook now userId b =
     (Inr (), b\<lparr>borrowHistory :=
                  updateFirst (activeLoanOf userId) (closeLoan now) (borrowHistory b),
                availableCopies := availableCopies b + 1,
                availability := (if availableCopies b + 1 > 0 then Available
                                 else availability b)\<rparr>)"
proof -
  assume "\<exists>r \<in> set (borrowHistory b). activeLoanOf userId r"
  then have "List.find (activeLoanOf userId) (borrowHistory b) \<noteq> None"
    by (simp add: find_activeLoan_None)
  then obtain r where "List.find (activeLoanOf userId) (borrowHistory b) = Some r"
    by blast
  then show ?thesis
    by (simp add: returnBook_def Let_def)
qed

lemma borrowBook_fail:
  "\<not> isAvailable b \<Longrightarrow>
   borrowBook now stamp userId b = (Inl (Error ''Book is not available for borrowing''), b)"
  by (simp add: borrowBook_def)

lemma borrowBook_ok:
  "isAvailable b \<Longrightarrow>
   borrowBook now stamp userId b =
     (Inr (), b\<lparr>availableCopies := availableCopies b - 1,
                availability := (if availableCopies b - 1 = 0 then Borrowed
                                 else availability b),
                borrowHistory := borrowHistory b @
                   [\<lparr>br_user = userId, borrowDate = stamp, returnDate = None,
                     dueDate = Some (addDays now 14), status = LoanBorrowed\<rparr>]\<rparr>)"
  by (simp add: borrowBook_def Let_def)

subsection \<open>Borrowing\<close>

text \<open>
  Claim C3. \<open>isAvailable\<close> is true exactly when the availability is \<open>Available\<close>
  and a copy is left; \<open>borrowBook\<close> throws exactly when \<open>isAvailable\<close> is false,
  and then the book is the one it was given. For a counter that the schema admits
  (not negative) this is exactly the case \<open>availableCopies = 0\<close> or availability
  other than \<open>Available\<close>.
\<close>

theorem borrowBook_fails_iff_unavailable:
  "(isAvailable b \<longleftrightarrow> availability b = Available \<and> 0 < availableCopies b) \<and>
   (threw (borrowBook now stamp userId b) \<longleftrightarrow> \<not> isAvailable b) \<and>
   (threw (borrowBook now stamp userId b) \<longrightarrow>
      borrowBook now stamp userId b =
        (Inl (Error ''Book is not available for borrowing''), b)) \<and>
   (0 \<le> availableCopies b \<longrightarrow>
      (threw (borrowBook now stamp userId b) \<longleftrightarrow>
         availableCopies b = 0 \<or> availability b \<noteq> Available))"
proof (cases "isAvailable b")
  case True
  then have "\<not> threw (borrowBook now stamp userId b)"
    by (simp add: borrowBook_ok threw_def)
  with True show ?thesis
    by (auto simp: isAvailable_def)
next
  case False
  then have "threw (borrowBook now stamp userId b)"
    by (simp add: borrowBook_fail threw_def)
  with False show ?thesis
    by (auto simp: isAvailable_def borrowBook_fail)
qed

theorem borrowBook_fails_iff_unavailable_witness:
  "threw (borrowBook 2000 2001 ''u2'' (shelf_book 1 0 Borrowed [loan_u1])) \<and>
   0 \<le> availableCopies (shelf_book 1 0 Borrowed [loan_u1]) \<and>
   \<not> isAvailable (shelf_book 1 0 Borrowed [loan_u1]) \<and>
   snd (borrowBook 2000 2001 ''u2'' (shelf_book 1 0 Borrowed [loan_u1])) =
     shelf_book 1 0 Borrowed [loan_u1]"
  using borrowBook_fails_iff_unavailable
    [of "shelf_book 1 0 Borrowed [loan_u1]" 2000 2001 "''u2''"]
  by (auto simp: shelf_book_def isAvailable_def)

text \<open>
  Claim C2, as stated, fails: the due date is computed from the clock value read
  by \<open>borrowBook\<close>, the borrow date is the schema default read when the record is
  pushed. When the clock advances between the two readings (here from 1000 to
  1001), \<open>dueDate\<close> is not \<open>borrowDate\<close> plus 14 days.
\<close>

theorem dueDate_not_borrowDate_plus_14:
  "isAvailable (shelf_book 2 2 Available []) \<and>
   borrowBook 1000 1001 ''u1'' (shelf_book 2 2 Available []) =
     (Inr (), shelf_book 2 1 Available
        [\<lparr>br_user = ''u1'', borrowDate = 1001, returnDate = None,
          dueDate = Some 1209601000, status = LoanBorrowed\<rparr>]) \<and>
   dueDate (last (borrowHistory (snd (borrowBook 1000 1001 ''u1'' (shelf_book 2 2 Available [])))))
     \<noteq> Some (addDays (borrowDate (last (borrowHistory
           (snd (borrowBook 1000 1001 ''u1'' (shelf_book 2 2 Available [])))))) 14)"
  by (simp add: borrowBook_def isAvailable_def shelf_book_def addDays_def Let_def)

text \<open>
  Claim C2, amended. On a book for which \<open>isAvailable\<close> holds, \<open>borrowBook\<close>
  returns; afterwards \<open>availableCopies\<close> is one less, and the history is the old
  one followed by exactly one record, for \<open>userId\<close>, with status borrowed, whose
  due date is the clock value read by \<open>borrowBook\<close> plus 14 days and whose borrow
  date is the default time stamp. The due date is the borrow date plus 14 days
  when the two clock values agree.
\<close>

theorem borrowBook_when_available:
  assumes "isAvailable b"
  shows "\<exists>b' r. borrowBook now stamp userId b = (Inr (), b') \<and>
           availableCopies b' = availableCopies b - 1 \<and>
           borrowHistory b' = borrowHistory b @ [r] \<and>
           br_user r = userId \<and> status r = LoanBorrowed \<and>
           dueDate r = Some (addDays now 14) \<and> borrowDate r = stamp \<and>
           (stamp = now \<longrightarrow> dueDate r = Some (addDays (borrowDate r) 14))"
  using assms by (simp add: borrowBook_ok)

theorem borrowBook_when_available_witness:
  "isAvailable (shelf_book 2 2 Available []) \<and>
   (\<exists>b' r. borrowBook 1000 1000 ''u1'' (shelf_book 2 2 Available []) = (Inr (), b') \<and>
           availableCopies b' = availableCopies (shelf_book 2 2 Available []) - 1 \<and>
           borrowHistory b' = borrowHistory (shelf_book 2 2 Available []) @ [r] \<and>
           br_user r = ''u1'' \<and> status r = LoanBorrowed \<and>
           dueDate r = Some (addDays (borrowDate r) 14))"
proof -
  have h: "isAvailable (shelf_book 2 2 Available [])"
    by (simp add: isAvailable_def shelf_book_def)
  from borrowBook_when_available
    [OF h, where now = 1000 and stamp = 1000 and userId = "''u1''"] h
  show ?thesis by blast
qed

subsection \<open>Returning\<close>

text \<open>
  Claim C5. When no record of the history is a borrowed one of the user,
  \<open>returnBook\<close> throws its error and the book, with its counters, availability and
  history, is the one it was given.
\<close>

theorem returnBook_without_active_loan:
  assumes "\<forall>r \<in> set (borrowHistory b). \<not> (br_user r = userId \<and> status r = LoanBorrowed)"
  shows "returnBook now userId b =
           (Inl (Error ''No active borrow record found for this user''), b)"
  using assms by (simp add: returnBook_fail activeLoanOf_def)

theorem returnBook_without_active_loan_witness:
  "borrowHistory (shelf_book 1 0 Borrowed [loan_u1]) = [loan_u1] \<and>
   br_user loan_u1 \<noteq> ''u2'' \<and>
   returnBook 2000 ''u2'' (shelf_book 1 0 Borrowed [loan_u1]) =
     (Inl (Error ''No active borrow record found for this user''),
      shelf_book 1 0 Borrowed [loan_u1])"
proof -
  have h: "\<forall>r \<in> set (borrowHistory (shelf_book 1 0 Borrowed [loan_u1])).
      \<not> (br_user r = ''u2'' \<and> status r = LoanBorrowed)"
    by (simp add: shelf_book_def loan_u1_def)
  have "borrowHistory (shelf_book 1 0 Borrowed [loan_u1]) = [loan_u1]"
    and "br_user loan_u1 \<noteq> ''u2''"
    by (simp_all add: shelf_book_def loan_u1_def)
  with returnBook_without_active_loan [OF h] show ?thesis by blast
qed

text \<open>
  Claim C4. When the history holds a borrowed record of the user, \<open>returnBook\<close>
  returns: the first such record (index \<open>i\<close>, none before it) gets the return
  date and the status returned, every other record stays, \<open>availableCopies\<close> is
  one more, and the availability is set to \<open>Available\<close> when the new counter is
  positive and left alone otherwise. For a counter that the schema admits (not
  negative) the availability afterwards is \<open>Available\<close> exactly when the new
  counter is positive.
\<close>

theorem returnBook_with_active_loan:
  assumes "\<exists>r \<in> set (borrowHistory b). br_user r = userId \<and> status r = LoanBorrowed"
  shows "\<exists>i < length (borrowHistory b).
           br_user (borrowHistory b ! i) = userId \<and>
           status (borrowHistory b ! i) = LoanBorrowed \<and>
           (\<forall>j < i. \<not> (br_user (borrowHistory b ! j) = userId \<and>
                        status (borrowHistory b ! j) = LoanBorrowed)) \<and>
           returnBook now userId b =
             (Inr (),
              b\<lparr>borrowHistory := (borrowHistory b)
                   [i := (borrowHistory b ! i)\<lparr>returnDate := Some now,
                                               status := LoanReturned\<rparr>],
                availableCopies := availableCopies b + 1,
                availability := (if 0 < availableCopies b + 1 then Available
                                 else availability b)\<rparr>) \<and>
           (0 \<le> availableCopies b \<longrightarrow>
              (availability (snd (returnBook now userId b)) = Available \<longleftrightarrow>
               0 < availableCopies (snd (returnBook now userId b))))"
proof -
  from assms have ex: "\<exists>r \<in> set (borrowHistory b). activeLoanOf userId r"
    by (simp add: activeLoanOf_def)
  from updateFirst_index [OF ex, of "closeLoan now"]
  obtain i where i: "i < length (borrowHistory b)"
      "activeLoanOf userId (borrowHistory b ! i)"
      "\<forall>j < i. \<not> activeLoanOf userId (borrowHistory b ! j)"
      "updateFirst (activeLoanOf userId) (closeLoan now) (borrowHistory b) =
         (borrowHistory b)[i := closeLoan now (borrowHistory b ! i)]"
    by blast
  have eq: "returnBook now userId b =
             (Inr (),
              b\<lparr>borrowHistory := (borrowHistory b)
                   [i := (borrowHistory b ! i)\<lparr>returnDate := Some now,
                                               status := LoanReturned\<rparr>],
                availableCopies := availableCopies b + 1,
                availability := (if 0 < availableCopies b + 1 then Available
                                 else availability b)\<rparr>)"
    by (simp add: returnBook_ok [OF ex] i(4) closeLoan_def)
  have "0 \<le> availableCopies b \<longrightarrow>
              (availability (snd (returnBook now userId b)) = Available \<longleftrightarrow>
               0 < availableCopies (snd (returnBook now userId b)))"
    by (simp add: eq)
  with i(1-3) eq show ?thesis
    unfolding activeLoanOf_def by blast
qed

theorem returnBook_with_active_loan_witness:
  "(\<exists>r \<in> set (borrowHistory (shelf_book 2 0 Borrowed [loan_u1])).
      br_user r = ''u1'' \<and> status r = LoanBorrowed) \<and>
   0 \<le> availableCopies (shelf_book 2 0 Borrowed [loan_u1]) \<and>
   returnBook 2000 ''u1'' (shelf_book 2 0 Borrowed [loan_u1]) =
     (Inr (), shelf_book 2 1 Available
        [\<lparr>br_user = ''u1'', borrowDate = 1000, returnDate = Some 2000,
          dueDate = Some (addDays 1000 14), status = LoanReturned\<rparr>])"
proof -
  have h: "\<exists>r \<in> set (borrowHistory (shelf_book 2 0 Borrowed [loan_u1])).
      br_user r = ''u1'' \<and> status r = LoanBorrowed"
    by (simp add: shelf_book_def loan_u1_def)
  from returnBook_with_active_loan [OF h, of 2000] h show ?thesis
    by (auto simp: shelf_book_def loan_u1_def)
qed

subsection \<open>The inventory invariant\<close>

text \<open>
  Claim C1, as stated, fails for \<open>returnBook\<close>: it adds one to \<open>availableCopies\<close>
  and never reads \<open>totalCopies\<close>. A book that satisfies the invariant with all of
  its copies on the shelf and a borrowed record in its history leaves the bound
  \<open>availableCopies \<le> totalCopies\<close> on return.
\<close>

theorem returnBook_breaks_copy_bound:
  "0 \<le> availableCopies (shelf_book 1 1 Available [loan_u1]) \<and>
   availableCopies (shelf_book 1 1 Available [loan_u1])
     \<le> totalCopies (shelf_book 1 1 Available [loan_u1]) \<and>
   (availability (shelf_book 1 1 Available [loan_u1]) = Borrowed \<longleftrightarrow>
      availableCopies (shelf_book 1 1 Available [loan_u1]) = 0) \<and>
   returnBook 2000 ''u1'' (shelf_book 1 1 Available [loan_u1]) =
     (Inr (), shelf_book 1 2 Available [closeLoan 2000 loan_u1]) \<and>
   \<not> availableCopies (snd (returnBook 2000 ''u1'' (shelf_book 1 1 Available [loan_u1])))
       \<le> totalCopies (snd (returnBook 2000 ''u1'' (shelf_book 1 1 Available [loan_u1])))"
  by (simp add: returnBook_def shelf_book_def loan_u1_def activeLoanOf_def)

text \<open>
  Claim C1, amended. From a book with \<open>0 \<le> availableCopies \<le> totalCopies\<close> and
  availability \<open>Borrowed\<close> exactly when no copy is left, \<open>borrowBook\<close> leads to a
  book with the same three properties, whether it returns or throws. \<open>returnBook\<close>
  keeps \<open>0 \<le> availableCopies\<close> and the availability property; it keeps
  \<open>availableCopies \<le> totalCopies\<close> exactly when it throws or a copy was missing
  from the shelf before the call.
\<close>

theorem inventory_invariant_borrow_return:
  assumes "0 \<le> availableCopies b" and "availableCopies b \<le> totalCopies b"
    and "availability b = Borrowed \<longleftrightarrow> availableCopies b = 0"
  shows "0 \<le> availableCopies (snd (borrowBook now stamp userId b)) \<and>
         availableCopies (snd (borrowBook now stamp userId b))
           \<le> totalCopies (snd (borrowBook now stamp userId b)) \<and>
         (availability (snd (borrowBook now stamp userId b)) = Borrowed \<longleftrightarrow>
            availableCopies (snd (borrowBook now stamp userId b)) = 0) \<and>
         0 \<le> availableCopies (snd (returnBook rnow ruser b)) \<and>
         (availability (snd (returnBook rnow ruser b)) = Borrowed \<longleftrightarrow>
            availableCopies (snd (returnBook rnow ruser b)) = 0) \<and>
         (availableCopies (snd (returnBook rnow ruser b))
            \<le> totalCopies (snd (returnBook rnow ruser b)) \<longleftrightarrow>
          threw (returnBook rnow ruser b) \<or> availableCopies b < totalCopies b)"
proof -
  have borrow: "0 \<le> availableCopies (snd (borrowBook now stamp userId b)) \<and>
         availableCopies (snd (borrowBook now stamp userId b))
           \<le> totalCopies (snd (borrowBook now stamp userId b)) \<and>
         (availability (snd (borrowBook now stamp userId b)) = Borrowed \<longleftrightarrow>
            availableCopies (snd (borrowBook now stamp userId b)) = 0)"
  proof (cases "isAvailable b")
    case True
    with assms show ?thesis
      by (simp add: borrowBook_ok isAvailable_def)
  next
    case False
    with assms show ?thesis
      by (simp add: borrowBook_fail)
  qed
  have return: "0 \<le> availableCopies (snd (returnBook rnow ruser b)) \<and>
         (availability (snd (returnBook rnow ruser b)) = Borrowed \<longleftrightarrow>
            availableCopies (snd (returnBook rnow ruser b)) = 0) \<and>
         (availableCopies (snd (returnBook rnow ruser b))
            \<le> totalCopies (snd (returnBook rnow ruser b)) \<longleftrightarrow>
          threw (returnBook rnow ruser b) \<or> availableCopies b < totalCopies b)"
  proof (cases "\<exists>r \<in> set (borrowHistory b). activeLoanOf ruser r")
    case True
    with assms show ?thesis
      by (auto simp: returnBook_ok threw_def)
  next
    case False
    then have "\<forall>r \<in> set (borrowHistory b). \<not> activeLoanOf ruser r" by blast
    with assms show ?thesis
      by (simp add: returnBook_fail threw_def)
  qed
  from borrow return show ?thesis by blast
qed

theorem inventory_invariant_borrow_return_witness:
  "0 \<le> availableCopies (shelf_book 2 1 Available [loan_u1]) \<and>
   availableCopies (shelf_book 2 1 Available [loan_u1])
     \<le> totalCopies (shelf_book 2 1 Available [loan_u1]) \<and>
   (availability (shelf_book 2 1 Available [loan_u1]) = Borrowed \<longleftrightarrow>
      availableCopies (shelf_book 2 1 Available [loan_u1]) = 0) \<and>
   availableCopies (snd (borrowBook 2000 2001 ''u2'' (shelf_book 2 1 Available [loan_u1])))
     \<le> totalCopies (snd (borrowBook 2000 2001 ''u2'' (shelf_book 2 1 Available [loan_u1]))) \<and>
   0 \<le> availableCopies (snd (returnBook 3000 ''u1'' (shelf_book 2 1 Available [loan_u1])))"
proof -
  have h1: "0 \<le> availableCopies (shelf_book 2 1 Available [loan_u1])"
    and h2: "availableCopies (shelf_book 2 1 Available [loan_u1])
               \<le> totalCopies (shelf_book 2 1 Available [loan_u1])"
    and h3: "availability (shelf_book 2 1 Available [loan_u1]) = Borrowed \<longleftrightarrow>
               availableCopies (shelf_book 2 1 Available [loan_u1]) = 0"
    by (simp_all add: shelf_book_def)
  from inventory_invariant_borrow_return
    [OF h1 h2 h3, where now = 2000 and stamp = 2001 and userId = "''u2''"
       and rnow = 3000 and ruser = "''u1''"]
    h1 h2 h3
  show ?thesis by blast
qed

section \<open>Facts about the annotation methods\<close>

lemma findIndexFrom_none:
  "\<forall>x \<in> set xs. \<not> P x \<Longrightarrow> findIndexFrom k P xs = - 1"
  by (induction xs arbitrary: k) auto

lemma findIndexFrom_first:
  "P x \<Longrightarrow> \<forall>y \<in> set pre. \<not> P y \<Longrightarrow>
   findIndexFrom k P (pre @ x # post) = k + int (length pre)"
  by (induction pre arbitrary: k) auto

lemma splice_one:
  "splice_js (pre @ x # post) (int (length pre)) (Suc 0) = pre @ post"
  by (simp add: splice_js_def Let_def)

lemma isLikedBy_iff: "isLikedBy a u \<longleftrightarrow> (\<exists>l \<in> set (likes a). like_user l = u)"
  by (simp add: isLikedBy_def list_ex_iff)

lemma toggleLike_liked:
  "\<forall>l \<in> set (likes a). like_user l \<noteq> u \<Longrightarrow>
   toggleLike s u a =
     (\<lparr>action = Liked, likeCount = length (likes a) + 1\<rparr>,
      a\<lparr>likes := likes a @ [\<lparr>like_user = u, likedAt = s\<rparr>]\<rparr>)"
  by (simp add: toggleLike_def findIndex_def findIndexFrom_none Let_def)

lemma toggleLike_unliked:
  "likes a = pre @ x # post \<Longrightarrow> like_user x = u \<Longrightarrow>
   \<forall>y \<in> set pre. like_user y \<noteq> u \<Longrightarrow>
   toggleLike s u a =
     (\<lparr>action = Unliked, likeCount = length pre + length post\<rparr>,
      a\<lparr>likes := pre @ post\<rparr>)"
  by (simp add: toggleLike_def findIndex_def Let_def splice_one
      findIndexFrom_first [where P = "\<lambda>l. like_user l = u"])

lemma first_like_split:
  "\<exists>l \<in> set ls. like_user l = u \<Longrightarrow>
   \<exists>pre x post. ls = pre @ x # post \<and> like_user x = u \<and>
     (\<forall>y \<in> set pre. like_user y \<noteq> u)"
  using split_list_first_prop [of ls "\<lambda>l. like_user l = u"] by blast

subsection \<open>Toggling a like\<close>

text \<open>
  Claim C7. When the user is among the likers, \<open>toggleLike\<close> removes one entry of
  that user, the first one (index \<open>i\<close>, none before it), and returns the action
  unliked; otherwise it appends a new entry for the user and returns the action
  liked. In both cases the returned \<open>likeCount\<close> is the length of \<open>likes\<close> after
  the change.
\<close>

theorem toggleLike_result:
  "(isLikedBy a userId \<longrightarrow>
      (\<exists>i < length (likes a).
         like_user (likes a ! i) = userId \<and>
         (\<forall>j < i. like_user (likes a ! j) \<noteq> userId) \<and>
         toggleLike stamp userId a =
           (\<lparr>action = Unliked, likeCount = length (likes a) - 1\<rparr>,
            a\<lparr>likes := take i (likes a) @ drop (Suc i) (likes a)\<rparr>))) \<and>
   (\<not> isLikedBy a userId \<longrightarrow>
      toggleLike stamp userId a =
        (\<lparr>action = Liked, likeCount = length (likes a) + 1\<rparr>,
         a\<lparr>likes := likes a @ [\<lparr>like_user = userId, likedAt = stamp\<rparr>]\<rparr>)) \<and>
   likeCount (fst (toggleLike stamp userId a)) =
     length (likes (snd (toggleLike stamp userId a)))"
proof (cases "isLikedBy a userId")
  case True
  then obtain pre x post where sp: "likes a = pre @ x # post" "like_user x = userId"
      "\<forall>y \<in> set pre. like_user y \<noteq> userId"
    using first_like_split [of "likes a" userId] by (auto simp: isLikedBy_iff)
  have tl: "toggleLike stamp userId a =
      (\<lparr>action = Unliked, likeCount = length pre + length post\<rparr>, a\<lparr>likes := pre @ post\<rparr>)"
    by (rule toggleLike_unliked [OF sp])
  have "length pre < length (likes a)" using sp(1) by simp
  moreover have "like_user (likes a ! length pre) = userId" using sp(1,2) by simp
  moreover have "\<forall>j < length pre. like_user (likes a ! j) \<noteq> userId"
    using sp(1,3) by (simp add: nth_append)
  moreover have "toggleLike stamp userId a =
           (\<lparr>action = Unliked, likeCount = length (likes a) - 1\<rparr>,
            a\<lparr>likes := take (length pre) (likes a) @ drop (Suc (length pre)) (likes a)\<rparr>)"
    using sp(1) by (simp add: tl)
  ultimately have "\<exists>i < length (likes a).
         like_user (likes a ! i) = userId \<and>
         (\<forall>j < i. like_user (likes a ! j) \<noteq> userId) \<and>
         toggleLike stamp userId a =
           (\<lparr>action = Unliked, likeCount = length (likes a) - 1\<rparr>,
            a\<lparr>likes := take i (likes a) @ drop (Suc i) (likes a)\<rparr>)"
    by blast
  moreover have "likeCount (fst (toggleLike stamp userId a)) =
     length (likes (snd (toggleLike stamp userId a)))"
    by (simp add: tl)
  ultimately show ?thesis using True by blast
next
  case False
  then have "\<forall>l \<in> set (likes a). like_user l \<noteq> userId"
    by (simp add: isLikedBy_iff)
  from toggleLike_liked [OF this, of stamp] False show ?thesis by simp
qed

theorem toggleLike_result_witness:
  "isLikedBy (note_with_likes ''a1'' [\<lparr>like_user = ''u1'', likedAt = 10\<rparr>]) ''u1'' \<and>
   \<not> isLikedBy (note_with_likes ''a1'' [\<lparr>like_user = ''u1'', likedAt = 10\<rparr>]) ''u2'' \<and>
   toggleLike 30 ''u1'' (note_with_likes ''a1'' [\<lparr>like_user = ''u1'', likedAt = 10\<rparr>]) =
     (\<lparr>action = Unliked, likeCount = 0\<rparr>, note_with_likes ''a1'' []) \<and>
   toggleLike 30 ''u2'' (note_with_likes ''a1'' [\<lparr>like_user = ''u1'', likedAt = 10\<rparr>]) =
     (\<lparr>action = Liked, likeCount = 2\<rparr>,
      note_with_likes ''a1''
        [\<lparr>like_user = ''u1'', likedAt = 10\<rparr>, \<lparr>like_user = ''u2'', likedAt = 30\<rparr>])"
  using toggleLike_result [of "note_with_likes ''a1'' [\<lparr>like_user = ''u1'', likedAt = 10\<rparr>]"
        "''u1''" 30]
    toggleLike_result [of "note_with_likes ''a1'' [\<lparr>like_user = ''u1'', likedAt = 10\<rparr>]"
        "''u2''" 30]
  by (simp add: isLikedBy_def note_with_likes_def)

text \<open>
  Claim C10. \<open>toggleLike\<close> changes nothing but \<open>likes\<close>: the document afterwards
  is the document before with a new \<open>likes\<close>, so \<open>user\<close>, \<open>book\<close>, \<open>type\<close>,
  \<open>content\<close>, \<open>position\<close>, \<open>color\<close>, \<open>isPrivate\<close>, \<open>tags\<close>, \<open>replies\<close> and
  \<open>isDeleted\<close> are as they were.
\<close>

theorem toggleLike_frame:
  "snd (toggleLike stamp userId a) = a\<lparr>likes := likes (snd (toggleLike stamp userId a))\<rparr> \<and>
   user (snd (toggleLike stamp userId a)) = user a \<and>
   book (snd (toggleLike stamp userId a)) = book a \<and>
   type (snd (toggleLike stamp userId a)) = type a \<and>
   content (snd (toggleLike stamp userId a)) = content a \<and>
   position (snd (toggleLike stamp userId a)) = position a \<and>
   color (snd (toggleLike stamp userId a)) = color a \<and>
   isPrivate (snd (toggleLike stamp userId a)) = isPrivate a \<and>
   tags (snd (toggleLike stamp userId a)) = tags a \<and>
   replies (snd (toggleLike stamp userId a)) = replies a \<and>
   isDeleted (snd (toggleLike stamp userId a)) = isDeleted a"
  by (simp add: toggleLike_def Let_def)

lemma toggle_twice_not_liked:
  assumes "\<forall>l \<in> set (likes a). like_user l \<noteq> u"
  shows "snd (toggleLike s2 u (snd (toggleLike s1 u a))) = a"
proof -
  let ?a1 = "a\<lparr>likes := likes a @ [\<lparr>like_user = u, likedAt = s1\<rparr>]\<rparr>"
  have 1: "snd (toggleLike s1 u a) = ?a1"
    by (simp add: toggleLike_liked [OF assms])
  have "toggleLike s2 u ?a1 =
      (\<lparr>action = Unliked, likeCount = length (likes a) + length ([] :: like list)\<rparr>,
       ?a1\<lparr>likes := likes a @ []\<rparr>)"
    by (rule toggleLike_unliked [where x = "\<lparr>like_user = u, likedAt = s1\<rparr>"])
       (use assms in simp_all)
  then show ?thesis by (simp add: 1)
qed

lemma toggle_twice_liked_once:
  assumes "length (filter (\<lambda>l. like_user l = u) (likes a)) = 1"
  shows "\<exists>pre x post. likes a = pre @ x # post \<and> like_user x = u \<and>
           likes (snd (toggleLike s2 u (snd (toggleLike s1 u a)))) =
             pre @ post @ [\<lparr>like_user = u, likedAt = s2\<rparr>]"
proof -
  from assms have "filter (\<lambda>l. like_user l = u) (likes a) \<noteq> []" by auto
  then have "\<exists>l \<in> set (likes a). like_user l = u"
    by (simp add: filter_empty_conv)
  from first_like_split [OF this]
  obtain pre x post where sp: "likes a = pre @ x # post" "like_user x = u"
      "\<forall>y \<in> set pre. like_user y \<noteq> u"
    by blast
  from sp(3) have pre0: "filter (\<lambda>l. like_user l = u) pre = []"
    by (simp add: filter_empty_conv)
  from assms sp(1,2) pre0 have "filter (\<lambda>l. like_user l = u) post = []" by simp
  then have post0: "\<forall>y \<in> set post. like_user y \<noteq> u"
    by (simp add: filter_empty_conv)
  have 1: "snd (toggleLike s1 u a) = a\<lparr>likes := pre @ post\<rparr>"
    by (simp add: toggleLike_unliked [OF sp])
  have "\<forall>l \<in> set (likes (a\<lparr>likes := pre @ post\<rparr>)). like_user l \<noteq> u"
    using sp(3) post0 by auto
  from toggleLike_liked [OF this, of s2]
  have "likes (snd (toggleLike s2 u (snd (toggleLike s1 u a)))) =
      pre @ post @ [\<lparr>like_user = u, likedAt = s2\<rparr>]"
    by (simp add: 1)
  with sp(1,2) show ?thesis by blast
qed

text \<open>
  Claim C6, as stated, fails on an annotation in which the user appears twice
  among the likers (the schema does not forbid it): both calls then remove an
  entry, so the like count drops by two and here the user leaves the membership.
\<close>

theorem toggleLike_twice_duplicate_liker:
  "likes (note_with_likes ''a1''
      [\<lparr>like_user = ''u1'', likedAt = 10\<rparr>, \<lparr>like_user = ''u1'', likedAt = 20\<rparr>]) =
     [\<lparr>like_user = ''u1'', likedAt = 10\<rparr>, \<lparr>like_user = ''u1'', likedAt = 20\<rparr>] \<and>
   likes (snd (toggleLike 40 ''u1'' (snd (toggleLike 30 ''u1''
      (note_with_likes ''a1''
        [\<lparr>like_user = ''u1'', likedAt = 10\<rparr>, \<lparr>like_user = ''u1'', likedAt = 20\<rparr>]))))) = [] \<and>
   length (likes (snd (toggleLike 40 ''u1'' (snd (toggleLike 30 ''u1''
      (note_with_likes ''a1''
        [\<lparr>like_user = ''u1'', likedAt = 10\<rparr>, \<lparr>like_user = ''u1'', likedAt = 20\<rparr>]))))))
     \<noteq> length (likes (note_with_likes ''a1''
        [\<lparr>like_user = ''u1'', likedAt = 10\<rparr>, \<lparr>like_user = ''u1'', likedAt = 20\<rparr>])) \<and>
   like_user ` set (likes (snd (toggleLike 40 ''u1'' (snd (toggleLike 30 ''u1''
      (note_with_likes ''a1''
        [\<lparr>like_user = ''u1'', likedAt = 10\<rparr>, \<lparr>like_user = ''u1'', likedAt = 20\<rparr>]))))))
     \<noteq> like_user ` set (likes (note_with_likes ''a1''
        [\<lparr>like_user = ''u1'', likedAt = 10\<rparr>, \<lparr>like_user = ''u1'', likedAt = 20\<rparr>]))"
  by (simp add: note_with_likes_def toggleLike_def findIndex_def splice_js_def Let_def)

text \<open>
  Claim C6, amended. On an annotation in which the user appears at most once
  among the likers, two consecutive calls of \<open>toggleLike\<close> with that user give back
  the like count and the set of users that appear among the likers.
\<close>

theorem toggleLike_twice:
  assumes "length (filter (\<lambda>l. like_user l = userId) (likes a)) \<le> 1"
  shows "length (likes (snd (toggleLike s2 userId (snd (toggleLike s1 userId a))))) =
           length (likes a) \<and>
         like_user ` set (likes (snd (toggleLike s2 userId (snd (toggleLike s1 userId a))))) =
           like_user ` set (likes a)"
proof (cases "length (filter (\<lambda>l. like_user l = userId) (likes a)) = 0")
  case True
  then have "\<forall>l \<in> set (likes a). like_user l \<noteq> userId"
    by (simp add: filter_empty_conv)
  from toggle_twice_not_liked [OF this] show ?thesis by simp
next
  case False
  with assms have "length (filter (\<lambda>l. like_user l = userId) (likes a)) = 1" by arith
  from toggle_twice_liked_once [OF this, of s2 s1]
  obtain pre x post where sp: "likes a = pre @ x # post" "like_user x = userId"
      "likes (snd (toggleLike s2 userId (snd (toggleLike s1 userId a)))) =
         pre @ post @ [\<lparr>like_user = userId, likedAt = s2\<rparr>]"
    by blast
  show ?thesis by (auto simp: sp)
qed

theorem toggleLike_twice_witness:
  "length (filter (\<lambda>l. like_user l = ''u1'')
     (likes (note_with_likes ''a1''
        [\<lparr>like_user = ''u1'', likedAt = 10\<rparr>, \<lparr>like_user = ''u2'', likedAt = 20\<rparr>]))) \<le> 1 \<and>
   length (likes (snd (toggleLike 40 ''u1'' (snd (toggleLike 30 ''u1''
     (note_with_likes ''a1''
        [\<lparr>like_user = ''u1'', likedAt = 10\<rparr>, \<lparr>like_user = ''u2'', likedAt = 20\<rparr>])))))) = 2 \<and>
   like_user ` set (likes (snd (toggleLike 40 ''u1'' (snd (toggleLike 30 ''u1''
     (note_with_likes ''a1''
        [\<lparr>like_user = ''u1'', likedAt = 10\<rparr>, \<lparr>like_user = ''u2'', likedAt = 20\<rparr>])))))) =
     {''u1'', ''u2''}"
proof -
  have h: "length (filter (\<lambda>l. like_user l = ''u1'')
     (likes (note_with_likes ''a1''
        [\<lparr>like_user = ''u1'', likedAt = 10\<rparr>, \<lparr>like_user = ''u2'', likedAt = 20\<rparr>]))) \<le> 1"
    by (simp add: note_with_likes_def)
  from toggleLike_twice [OF h, of 40 30] h show ?thesis
    by (simp add: note_with_likes_def)
qed

subsection \<open>Soft deletion and the queries\<close>

lemma set_byPageThenCreated: "set (byPageThenCreated xs) = set xs"
  by (simp add: byPageThenCreated_def)

lemma persist_mem: "a \<in> set (persist a coll)"
  by (auto simp: persist_def)

lemma persist_same_id:
  assumes "d \<in> set (persist a coll)" and "doc_id d = doc_id a"
  shows "d = a"
proof (cases "doc_id a \<in> set (map doc_id coll)")
  case True
  then have "persist a coll = map (\<lambda>e. if doc_id e = doc_id a then a else e) coll"
    by (simp add: persist_def)
  with assms(1) have "d \<in> (\<lambda>e. if doc_id e = doc_id a then a else e) ` set coll"
    by simp
  then obtain e where "d = (if doc_id e = doc_id a then a else e)"
    by (rule imageE)
  with assms(2) show ?thesis by (cases "doc_id e = doc_id a") simp_all
next
  case False
  with assms(1) have "d \<in> set coll \<or> d = a" by (auto simp: persist_def)
  moreover have "d \<notin> set coll"
  proof
    assume "d \<in> set coll"
    then have "doc_id d \<in> set (map doc_id coll)" by simp
    with False assms(2) show False by simp
  qed
  ultimately show ?thesis by blast
qed

lemma findUserAnnotations_set:
  "set (findUserAnnotations u b coll) =
     {a \<in> set coll. user a = u \<and> book a = b \<and> \<not> isDeleted a}"
  by (auto simp: findUserAnnotations_def set_byPageThenCreated)

lemma findByType_set:
  "set (findByType u b ty coll) =
     {a \<in> set coll. user a = u \<and> book a = b \<and> type a = ty \<and> \<not> isDeleted a}"
  by (auto simp: findByType_def set_byPageThenCreated)

lemma findPublicAnnotations_set:
  "fst ` set (findPublicAnnotations users b coll) =
     {a \<in> set coll. book a = b \<and> \<not> isPrivate a \<and> \<not> isDeleted a}"
  by (auto simp: findPublicAnnotations_def set_byPageThenCreated image_image)

lemma searchAnnotations_set:
  "searchAnnotations rx books u q coll = Inr rs \<Longrightarrow>
   \<exists>m. rx q = Some m \<and>
     fst ` set rs = {a \<in> set coll. user a = u \<and> \<not> isDeleted a \<and> matchesSearch m a}"
  by (auto simp: searchAnnotations_def image_image split: option.splits)

lemma softDelete_fst:
  "fst (softDelete now modified new a coll) = preSave now modified new (a\<lparr>isDeleted := True\<rparr>)"
  by (simp add: softDelete_def save_def Let_def)

lemma softDelete_snd:
  "snd (softDelete now modified new a coll) =
     persist (preSave now modified new (a\<lparr>isDeleted := True\<rparr>)) coll"
  by (simp add: softDelete_def save_def Let_def)

lemma preSave_keeps:
  "doc_id (preSave now modified new a) = doc_id a"
  "isDeleted (preSave now modified new a) = isDeleted a"
  "isPrivate (preSave now modified new a) = isPrivate a"
  "book (preSave now modified new a) = book a"
  by (simp_all add: preSave_def)

lemma softDelete_stored_deleted:
  "d \<in> set (snd (softDelete now modified new a coll)) \<Longrightarrow> doc_id d = doc_id a \<Longrightarrow>
   isDeleted d"
proof -
  assume d: "d \<in> set (snd (softDelete now modified new a coll))" "doc_id d = doc_id a"
  let ?a' = "preSave now modified new (a\<lparr>isDeleted := True\<rparr>)"
  have "doc_id ?a' = doc_id a" by (simp add: preSave_keeps)
  with d have "d = ?a'"
    by (auto simp: softDelete_snd intro: persist_same_id)
  then show ?thesis by (simp add: preSave_keeps)
qed

text \<open>
  Claim C8. \<open>softDelete\<close> sets \<open>isDeleted\<close> and stores the document; in the
  collection after that, none of \<open>findUserAnnotations\<close>, \<open>findPublicAnnotations\<close>,
  \<open>findByType\<close> and \<open>searchAnnotations\<close> (when it returns results) returns a
  document with the \<^verbatim>\<open>_id\<close> of the deleted annotation, whatever their arguments.
\<close>

theorem softDelete_excluded:
  "isDeleted (fst (softDelete now modified new a coll)) = True \<and>
   fst (softDelete now modified new a coll) \<in> set (snd (softDelete now modified new a coll)) \<and>
   doc_id a \<notin> doc_id ` set (findUserAnnotations userId bookId
                  (snd (softDelete now modified new a coll))) \<and>
   doc_id a \<notin> doc_id ` fst ` set (findPublicAnnotations users bookId
                  (snd (softDelete now modified new a coll))) \<and>
   doc_id a \<notin> doc_id ` set (findByType userId bookId ty
                  (snd (softDelete now modified new a coll))) \<and>
   (\<forall>rs. searchAnnotations rx books userId searchQuery
            (snd (softDelete now modified new a coll)) = Inr rs \<longrightarrow>
         doc_id a \<notin> doc_id ` fst ` set rs)"
proof -
  have 1: "isDeleted (fst (softDelete now modified new a coll)) = True"
    by (simp add: softDelete_fst preSave_keeps)
  have 2: "fst (softDelete now modified new a coll)
      \<in> set (snd (softDelete now modified new a coll))"
    by (simp add: softDelete_fst softDelete_snd persist_mem)
  have 3: "doc_id a \<notin> doc_id ` set (findUserAnnotations userId bookId
                  (snd (softDelete now modified new a coll)))"
    using softDelete_stored_deleted [of _ now modified new a coll]
    by (auto simp: findUserAnnotations_set)
  have 4: "doc_id a \<notin> doc_id ` fst ` set (findPublicAnnotations users bookId
                  (snd (softDelete now modified new a coll)))"
    using softDelete_stored_deleted [of _ now modified new a coll]
    by (auto simp: findPublicAnnotations_set)
  have 5: "doc_id a \<notin> doc_id ` set (findByType userId bookId ty
                  (snd (softDelete now modified new a coll)))"
    using softDelete_stored_deleted [of _ now modified new a coll]
    by (auto simp: findByType_set)
  have 6: "\<forall>rs. searchAnnotations rx books userId searchQuery
            (snd (softDelete now modified new a coll)) = Inr rs \<longrightarrow>
         doc_id a \<notin> doc_id ` fst ` set rs"
  proof (intro allI impI notI)
    fix rs
    assume rs: "searchAnnotations rx books userId searchQuery
                  (snd (softDelete now modified new a coll)) = Inr rs"
      and "doc_id a \<in> doc_id ` fst ` set rs"
    then obtain d where d: "d \<in> fst ` set rs" "doc_id d = doc_id a"
      by (metis imageE)
    from searchAnnotations_set [OF rs] d(1)
    have "d \<in> set (snd (softDelete now modified new a coll))" "\<not> isDeleted d"
      by auto
    with softDelete_stored_deleted [OF _ d(2)] show False by blast
  qed
  from 1 2 3 4 5 6 show ?thesis by blast
qed

theorem softDelete_excluded_witness:
  "findUserAnnotations ''u1'' ''b1''
     [note_with_likes ''a1'' [], note_with_likes ''a2'' []] =
     [note_with_likes ''a1'' [], note_with_likes ''a2'' []] \<and>
   doc_id (note_with_likes ''a1'' []) \<notin> doc_id ` set (findUserAnnotations ''u1'' ''b1''
      (snd (softDelete 200 True False (note_with_likes ''a1'' [])
         [note_with_likes ''a1'' [], note_with_likes ''a2'' []]))) \<and>
   findUserAnnotations ''u1'' ''b1''
      (snd (softDelete 200 True False (note_with_likes ''a1'' [])
         [note_with_likes ''a1'' [], note_with_likes ''a2'' []])) =
     [note_with_likes ''a2'' []] \<and>
   searchAnnotations (\<lambda>q. Some (\<lambda>t. t = q)) (\<lambda>b. Some b) ''u1'' ''spice''
      (snd (softDelete 200 True False (note_with_likes ''a1'' [])
         [note_with_likes ''a1'' [], note_with_likes ''a2'' []])) =
     Inr [(note_with_likes ''a2'' [], Some ''b1'')]"
  using softDelete_excluded [of 200 True False "note_with_likes ''a1'' []"
      "[note_with_likes ''a1'' [], note_with_likes ''a2'' []]" "''u1''" "''b1''"]
  by (simp add: findUserAnnotations_def byPageThenCreated_def softDelete_def save_def
      preSave_def persist_def note_with_likes_def newAnnotation_def note_input_def Let_def
      searchAnnotations_def matchesSearch_def)

lemma save_snd: "snd (save now modified new a coll) = persist (preSave now modified new a) coll"
  by (simp add: save_def Let_def)

text \<open>
  Claim C9. An annotation created without a privacy flag has \<open>isPrivate\<close> true.
  Once it is stored, \<open>findPublicAnnotations\<close> for its book does not return it; after
  the flag is cleared and the document saved, the query returns it (unless it was
  created deleted).
\<close>

theorem private_by_default:
  assumes "in_isPrivate inp = None"
    and "a = newAnnotation newId stamp created inp"
    and "stored = snd (save created modified True a coll)"
  shows "isPrivate a = True \<and>
         a \<in> set stored \<and>
         doc_id a \<notin> doc_id ` fst ` set (findPublicAnnotations users (book a) stored) \<and>
         (\<not> isDeleted a \<longrightarrow>
            doc_id a \<in> doc_id ` fst ` set (findPublicAnnotations users (book a)
               (snd (save now modified' new' (a\<lparr>isPrivate := False\<rparr>) stored))))"
proof -
  have priv: "isPrivate a = True"
    using assms(1,2) by (simp add: newAnnotation_def)
  have stored: "stored = persist a coll"
    using assms(3) by (simp add: save_snd preSave_def)
  have mem: "a \<in> set stored"
    by (simp add: stored persist_mem)
  have excl: "doc_id a \<notin> doc_id ` fst ` set (findPublicAnnotations users (book a) stored)"
  proof
    assume "doc_id a \<in> doc_id ` fst ` set (findPublicAnnotations users (book a) stored)"
    then obtain d where d: "d \<in> set stored" "\<not> isPrivate d" "doc_id d = doc_id a"
      by (auto simp: findPublicAnnotations_set)
    from d(1,3) have "d = a" unfolding stored by (rule persist_same_id)
    with d(2) priv show False by simp
  qed
  have incl: "doc_id a \<in> doc_id ` fst ` set (findPublicAnnotations users (book a)
               (snd (save now modified' new' (a\<lparr>isPrivate := False\<rparr>) stored)))"
    if live: "\<not> isDeleted a"
  proof -
    let ?c = "preSave now modified' new' (a\<lparr>isPrivate := False\<rparr>)"
    have "?c \<in> set (snd (save now modified' new' (a\<lparr>isPrivate := False\<rparr>) stored))"
      by (simp add: save_snd persist_mem)
    moreover have "book ?c = book a" "\<not> isPrivate ?c" "\<not> isDeleted ?c" "doc_id ?c = doc_id a"
      using live by (simp_all add: preSave_keeps)
    ultimately have "?c \<in> fst ` set (findPublicAnnotations users (book a)
               (snd (save now modified' new' (a\<lparr>isPrivate := False\<rparr>) stored)))"
      by (simp add: findPublicAnnotations_set)
    then have "doc_id ?c \<in> doc_id ` fst ` set (findPublicAnnotations users (book a)
               (snd (save now modified' new' (a\<lparr>isPrivate := False\<rparr>) stored)))"
      by (rule imageI)
    then show ?thesis by (simp add: preSave_keeps)
  qed
  from priv mem excl incl show ?thesis by blast
qed

theorem private_by_default_witness:
  "in_isPrivate note_input = None \<and>
   isPrivate (newAnnotation ''a1'' 100 101 note_input) = True \<and>
   \<not> isDeleted (newAnnotation ''a1'' 100 101 note_input) \<and>
   doc_id (newAnnotation ''a1'' 100 101 note_input)
     \<notin> doc_id ` fst ` set (findPublicAnnotations (\<lambda>u. Some u)
          (book (newAnnotation ''a1'' 100 101 note_input))
          (snd (save 101 True True (newAnnotation ''a1'' 100 101 note_input) []))) \<and>
   doc_id (newAnnotation ''a1'' 100 101 note_input)
     \<in> doc_id ` fst ` set (findPublicAnnotations (\<lambda>u. Some u)
          (book (newAnnotation ''a1'' 100 101 note_input))
          (snd (save 200 True False ((newAnnotation ''a1'' 100 101 note_input)\<lparr>isPrivate := False\<rparr>)
             (snd (save 101 True True (newAnnotation ''a1'' 100 101 note_input) [])))))"
proof -
  have h: "in_isPrivate note_input = None"
    by (simp add: note_input_def)
  have live: "\<not> isDeleted (newAnnotation ''a1'' 100 101 note_input)"
    by (simp add: newAnnotation_def note_input_def)
  from private_by_default [OF h refl refl, where newId = "''a1''" and stamp = 100
      and created = 101 and modified = True and coll = "[]" and users = "\<lambda>u. Some u"
      and now = 200 and modified' = True and new' = False] h live
  show ?thesis by blast
qed

end
